theory Spec2Isabelle
  imports Main
begin

unbundle bit_operations_syntax

section \<open>The HT16K33 LED controller driver (grid_io/ht16k33.py)\<close>

text \<open>
  The driver keeps a software copy of the chip's display memory, a bytearray of 16 rows,
  reads and writes single bits of it, and pushes it to the chip over I2C. Python integers
  are unbounded, so they are \<open>int\<close> here; the bytearray is an \<open>int list\<close> whose store
  operation refuses values outside \<open>0..255\<close>, as Python's does.
\<close>

subsection \<open>Exceptions and Python values\<close>

text \<open>
  Every \<^verbatim>\<open>assert\<close> of the driver raises \<open>AssertionError\<close>: the range checks on a
  coordinate, the bit check on a value, the shape and content checks on a bitmap and the
  domain checks on a brightness level or blink mode all surface as this one exception.
  \<^verbatim>\<open>__delitem__\<close> raises \<open>RuntimeError\<close>. \<open>IndexError\<close> and \<open>ValueError\<close> are what a
  bytearray or list raises on a bad index or a value that is not a byte.
  \<open>TransportError\<close> is the exception of a failed bus write.
  \<open>InitializationError\<close> is the kind the specification gives to an aborted
  construction; no statement of the driver raises it or turns another exception into it.
\<close>

datatype error =
    AssertionError
  | RuntimeError string
  | IndexError
  | ValueError
  | TransportError
  | InitializationError

text \<open>The values a caller may pass where a bit is expected.\<close>

datatype pyval = PyInt int | PyBool bool | PyNone

text \<open>\<^verbatim>\<open>bool\<close> is a subclass of \<^verbatim>\<open>int\<close>: \<^verbatim>\<open>True == 1\<close> and \<^verbatim>\<open>False == 0\<close>.\<close>

fun py_num :: "pyval \<Rightarrow> int option" where
  "py_num (PyInt i) = Some i"
| "py_num (PyBool b) = Some (if b then 1 else 0)"
| "py_num PyNone = None"

text \<open>Python's \<^verbatim>\<open>==\<close> on these values.\<close>

definition py_eq :: "pyval \<Rightarrow> pyval \<Rightarrow> bool" where
  "py_eq a b =
     (case (py_num a, py_num b) of
        (Some x, Some y) \<Rightarrow> x = y
      | (None, None) \<Rightarrow> True
      | _ \<Rightarrow> False)"

text \<open>Python's \<^verbatim>\<open>e in [..]\<close>: some element of the list equals \<open>e\<close>.\<close>

definition py_in :: "pyval \<Rightarrow> pyval list \<Rightarrow> bool" where
  "py_in e xs = list_ex (py_eq e) xs"

text \<open>\<^verbatim>\<open>def is_bit(e): return e in [0, 1, False, True]\<close>\<close>

definition is_bit :: "pyval \<Rightarrow> bool" where
  "is_bit e = py_in e [PyInt 0, PyInt 1, PyBool False, PyBool True]"

subsection \<open>Sequences\<close>

text \<open>
  Indexing a Python sequence: a negative index counts from the end, an index outside
  the sequence raises \<open>IndexError\<close>.
\<close>

definition py_index :: "'a list \<Rightarrow> int \<Rightarrow> error + 'a" where
  "py_index xs i =
     (if 0 \<le> i \<and> i < int (length xs) then Inr (xs ! nat i)
      else if i < 0 \<and> - int (length xs) \<le> i then Inr (xs ! nat (int (length xs) + i))
      else Inl IndexError)"

text \<open>Storing into a bytearray: the value must be a byte.\<close>

definition bytearray_store :: "int list \<Rightarrow> int \<Rightarrow> int \<Rightarrow> error + int list" where
  "bytearray_store xs i v =
     (if \<not> (0 \<le> v \<and> v < 256) then Inl ValueError
      else if 0 \<le> i \<and> i < int (length xs) then Inr (xs[nat i := v])
      else if i < 0 \<and> - int (length xs) \<le> i then Inr (xs[nat (int (length xs) + i) := v])
      else Inl IndexError)"

subsection \<open>The device and its bus\<close>

text \<open>A call the driver makes on the bus: a raw command byte, or a byte for a register.\<close>

datatype bus_op = Write int | RegisterWriteU8 int int

text \<open>
  The bus decides, from the calls made so far and the call at hand, whether the call
  succeeds.
\<close>

type_synonym transport = "bus_op list \<Rightarrow> bus_op \<Rightarrow> bool"

text \<open>
  The state of a driver object: \<^verbatim>\<open>self._display_buffer\<close>, and the calls it has made on
  the bus, oldest first, a failed call included.
\<close>

record device =
  display_buffer :: "int list"
  trace :: "bus_op list"

text \<open>
  A method returns or raises, and in both cases leaves the object in some state.
\<close>

type_synonym 'a result = "(error + 'a) \<times> device"

definition then_do :: "'a result \<Rightarrow> (device \<Rightarrow> 'b result) \<Rightarrow> 'b result" where
  "then_do r f = (case r of (Inl e, d) \<Rightarrow> (Inl e, d) | (Inr _, d) \<Rightarrow> f d)"

text \<open>
  Modelled from the spec: \<^verbatim>\<open>I2CDevice.write\<close> and \<^verbatim>\<open>I2CDevice.register_write_u8\<close>
  of the base class (grid_io/i2c.py) are missing from the sources. The spec gives the
  transport the operations \<^verbatim>\<open>write(byte)\<close> and \<^verbatim>\<open>write_register(address, value)\<close>,
  each of which either performs the write or fails with a transport error. The call is
  recorded in the trace either way.
\<close>

definition bus_call :: "transport \<Rightarrow> bus_op \<Rightarrow> device \<Rightarrow> unit result" where
  "bus_call ok c d =
     (if ok (trace d) c then (Inr (), d\<lparr>trace := trace d @ [c]\<rparr>)
      else (Inl TransportError, d\<lparr>trace := trace d @ [c]\<rparr>))"

definition i2c_write :: "transport \<Rightarrow> int \<Rightarrow> device \<Rightarrow> unit result" where
  "i2c_write ok byte d = bus_call ok (Write byte) d"

definition register_write_u8 :: "transport \<Rightarrow> int \<Rightarrow> int \<Rightarrow> device \<Rightarrow> unit result" where
  "register_write_u8 ok address v d = bus_call ok (RegisterWriteU8 address v) d"

subsection \<open>Constants of the class\<close>

definition BLINK_OFF :: int where "BLINK_OFF = 0"
definition BLINK_2HZ :: int where "BLINK_2HZ = 1"
definition BLINK_1HZ :: int where "BLINK_1HZ = 2"
definition BLINK_HALFHZ :: int where "BLINK_HALFHZ = 3"

definition BLINK_DISPLAYON :: int where "BLINK_DISPLAYON = 0x01"
definition SYSTEM_OSCILLATOR_ON :: int where "SYSTEM_OSCILLATOR_ON = 0x01"

definition CMD_BLINK :: int where "CMD_BLINK = 0x80"
definition CMD_BRIGHTNESS :: int where "CMD_BRIGHTNESS = 0xE0"
definition CMD_SYSTEM_SETUP :: int where "CMD_SYSTEM_SETUP = 0x20"

definition MEM_ROWS :: int where "MEM_ROWS = 16"
definition MEM_COLS :: int where "MEM_COLS = 8"

subsection \<open>Commands\<close>

text \<open>
  \<^verbatim>\<open>set_brightness\<close>: \<^verbatim>\<open>assert 0 <= value <= 15\<close>, then
  \<^verbatim>\<open>self.write(_CMD_BRIGHTNESS | value)\<close>.
\<close>

definition set_brightness :: "transport \<Rightarrow> int \<Rightarrow> device \<Rightarrow> unit result" where
  "set_brightness ok v d =
     (if \<not> (0 \<le> v \<and> v \<le> 15) then (Inl AssertionError, d)
      else i2c_write ok (CMD_BRIGHTNESS OR v) d)"

text \<open>
  \<^verbatim>\<open>set_blink_rate\<close>: the value must be one of the four modes, then
  \<^verbatim>\<open>self.write(_CMD_BLINK | _BLINK_DISPLAYON | (value << 1))\<close>.
\<close>

definition set_blink_rate :: "transport \<Rightarrow> int \<Rightarrow> device \<Rightarrow> unit result" where
  "set_blink_rate ok v d =
     (if \<not> (v \<in> set [BLINK_OFF, BLINK_2HZ, BLINK_1HZ, BLINK_HALFHZ])
      then (Inl AssertionError, d)
      else i2c_write ok (CMD_BLINK OR BLINK_DISPLAYON OR push_bit 1 v) d)"

subsection \<open>Flush\<close>

text \<open>
  \<^verbatim>\<open>for address, value in enumerate(self._display_buffer):
      self.register_write_u8(address, value)\<close>
  An exception of a write leaves the loop.
\<close>

definition enumerate_py :: "'a list \<Rightarrow> (int \<times> 'a) list" where
  "enumerate_py xs = zip (map int [0..<length xs]) xs"

fun flush_loop :: "transport \<Rightarrow> (int \<times> int) list \<Rightarrow> device \<Rightarrow> unit result" where
  "flush_loop ok [] d = (Inr (), d)"
| "flush_loop ok ((address, v) # rest) d =
     (case register_write_u8 ok address v d of
        (Inl e, d') \<Rightarrow> (Inl e, d')
      | (Inr _, d') \<Rightarrow> flush_loop ok rest d')"

definition flush :: "transport \<Rightarrow> device \<Rightarrow> unit result" where
  "flush ok d = flush_loop ok (enumerate_py (display_buffer d)) d"

subsection \<open>Bit access\<close>

text \<open>
  \<^verbatim>\<open>__getitem__\<close>: both coordinates are checked, then
  \<^verbatim>\<open>(self._display_buffer[row] >> column) & 0x1\<close>. It changes nothing.
\<close>

definition getitem :: "int \<times> int \<Rightarrow> device \<Rightarrow> error + int" where
  "getitem key d =
     (case key of (row, column) \<Rightarrow>
        if \<not> (0 \<le> row \<and> row < MEM_ROWS) then Inl AssertionError
        else if \<not> (0 \<le> column \<and> column < MEM_COLS) then Inl AssertionError
        else (case py_index (display_buffer d) row of
                Inl e \<Rightarrow> Inl e
              | Inr v \<Rightarrow> Inr (drop_bit (nat column) v AND 0x1)))"

text \<open>
  The augmented assignment \<^verbatim>\<open>self._display_buffer[row] = f(self._display_buffer[row])\<close>.
\<close>

definition update_row :: "int \<Rightarrow> (int \<Rightarrow> int) \<Rightarrow> device \<Rightarrow> unit result" where
  "update_row row f d =
     (case py_index (display_buffer d) row of
        Inl e \<Rightarrow> (Inl e, d)
      | Inr v \<Rightarrow>
          (case bytearray_store (display_buffer d) row (f v) of
             Inl e \<Rightarrow> (Inl e, d)
           | Inr buf \<Rightarrow> (Inr (), d\<lparr>display_buffer := buf\<rparr>)))"

text \<open>
  \<^verbatim>\<open>__setitem__\<close>: \<^verbatim>\<open>True\<close> and \<^verbatim>\<open>False\<close> become 1 and 0, then the row, the column
  and the value are checked in this order, then the bit is cleared with
  \<^verbatim>\<open>&= (~(0x1 << column) & 0xFFFF)\<close> or set with \<^verbatim>\<open>|= 0x1 << column\<close>.
\<close>

definition setitem :: "int \<times> int \<Rightarrow> pyval \<Rightarrow> device \<Rightarrow> unit result" where
  "setitem key val d =
     (case key of (row, column) \<Rightarrow>
        let v = (if val = PyBool True then PyInt 1
                 else if val = PyBool False then PyInt 0
                 else val)
        in if \<not> (0 \<le> row \<and> row < MEM_ROWS) then (Inl AssertionError, d)
           else if \<not> (0 \<le> column \<and> column < MEM_COLS) then (Inl AssertionError, d)
           else if \<not> py_in v [PyInt 0, PyInt 1] then (Inl AssertionError, d)
           else if py_eq v (PyInt 0)
             then update_row row (\<lambda>b. b AND (NOT (push_bit (nat column) 0x1) AND 0xFFFF)) d
             else update_row row (\<lambda>b. b OR push_bit (nat column) 0x1) d)"

text \<open>\<^verbatim>\<open>__delitem__\<close>: \<^verbatim>\<open>raise RuntimeError('Cannot delete bits')\<close>.\<close>

definition delitem :: "int \<times> int \<Rightarrow> device \<Rightarrow> unit result" where
  "delitem key d = (Inl (RuntimeError ''Cannot delete bits''), d)"

subsection \<open>Loading a bitmap\<close>

text \<open>
  The consistency check of \<^verbatim>\<open>write_bitmap\<close>, row by row: the row has
  \<^verbatim>\<open>_MEM_COLS\<close> elements, and all of them are bits.
\<close>

fun check_rows :: "pyval list list \<Rightarrow> error + unit" where
  "check_rows [] = Inr ()"
| "check_rows (row # rest) =
     (if \<not> (int (length row) = MEM_COLS) then Inl AssertionError
      else if \<not> list_all is_bit row then Inl AssertionError
      else check_rows rest)"

text \<open>
  The copy: \<^verbatim>\<open>for row in range(_MEM_ROWS): for column in range(_MEM_COLS):
  self[row, column] = bitmap[row][column]\<close>.
\<close>

fun copy_columns :: "pyval list list \<Rightarrow> int \<Rightarrow> int list \<Rightarrow> device \<Rightarrow> unit result" where
  "copy_columns bitmap row [] d = (Inr (), d)"
| "copy_columns bitmap row (column # rest) d =
     (case py_index bitmap row of
        Inl e \<Rightarrow> (Inl e, d)
      | Inr r \<Rightarrow>
          (case py_index r column of
             Inl e \<Rightarrow> (Inl e, d)
           | Inr v \<Rightarrow>
               (case setitem (row, column) v d of
                  (Inl e, d') \<Rightarrow> (Inl e, d')
                | (Inr _, d') \<Rightarrow> copy_columns bitmap row rest d')))"

fun copy_rows :: "pyval list list \<Rightarrow> int list \<Rightarrow> device \<Rightarrow> unit result" where
  "copy_rows bitmap [] d = (Inr (), d)"
| "copy_rows bitmap (row # rest) d =
     (case copy_columns bitmap row (map int [0..<nat MEM_COLS]) d of
        (Inl e, d') \<Rightarrow> (Inl e, d')
      | (Inr _, d') \<Rightarrow> copy_rows bitmap rest d')"

definition write_bitmap :: "pyval list list \<Rightarrow> device \<Rightarrow> unit result" where
  "write_bitmap bitmap d =
     (if \<not> (int (length bitmap) = MEM_ROWS) then (Inl AssertionError, d)
      else (case check_rows bitmap of
              Inl e \<Rightarrow> (Inl e, d)
            | Inr _ \<Rightarrow> copy_rows bitmap (map int [0..<nat MEM_ROWS]) d))"

subsection \<open>Construction\<close>

text \<open>
  \<^verbatim>\<open>__init__\<close>, after the constructor of the base class: a zeroed buffer of
  \<^verbatim>\<open>_MEM_ROWS\<close> bytes, then the chip initialisation routine. The trace starts empty:
  it holds the calls this class makes.
\<close>

definition init :: "transport \<Rightarrow> unit result" where
  "init ok =
     (let d = \<lparr>display_buffer = replicate (nat MEM_ROWS) 0, trace = []\<rparr>
      in then_do (i2c_write ok (CMD_SYSTEM_SETUP OR SYSTEM_OSCILLATOR_ON) d) (\<lambda>d.
         then_do (flush ok d) (\<lambda>d.
         then_do (set_blink_rate ok BLINK_OFF d) (\<lambda>d.
         set_brightness ok 15 d))))"

subsection \<open>Well-formed states\<close>

text \<open>A buffer the driver can hold: 16 rows, each a byte.\<close>

definition wf_buffer :: "int list \<Rightarrow> bool" where
  "wf_buffer buf = (length buf = 16 \<and> list_all (\<lambda>v. 0 \<le> v \<and> v < 256) buf)"

subsection \<open>Notions used to state the properties\<close>

text \<open>
  The row value \<^verbatim>\<open>__setitem__\<close> stores for bit \<open>b\<close> at column \<open>c\<close> of a row
  holding \<open>old\<close>.
\<close>

definition new_row :: "int \<Rightarrow> nat \<Rightarrow> int \<Rightarrow> int" where
  "new_row b c old =
     (if b = 0 then old AND (NOT (push_bit c 0x1) AND 0xFFFF) else old OR push_bit c 0x1)"

text \<open>
  A bitmap that passes the consistency check of \<^verbatim>\<open>write_bitmap\<close>, and the integer
  a cell of it stands for.
\<close>

definition valid_bitmap :: "pyval list list \<Rightarrow> bool" where
  "valid_bitmap M = (length M = 16 \<and> list_all (\<lambda>r. length r = 8 \<and> list_all is_bit r) M)"

definition cell :: "pyval list list \<Rightarrow> int \<Rightarrow> int \<Rightarrow> int" where
  "cell M r c = the (py_num (M ! nat r ! nat c))"

text \<open>
  Bus calls made one after the other until one fails: whether all succeeded, and the
  trace afterwards. The failed call is the last of the trace.
\<close>

fun attempt :: "transport \<Rightarrow> bus_op list \<Rightarrow> bus_op list \<Rightarrow> bool \<times> bus_op list" where
  "attempt ok tr [] = (True, tr)"
| "attempt ok tr (c # cs) = (if ok tr c then attempt ok (tr @ [c]) cs else (False, tr @ [c]))"

text \<open>
  What a method that made these bus calls and nothing else leaves behind.
\<close>

definition outcome :: "bool \<times> bus_op list \<Rightarrow> device \<Rightarrow> unit result" where
  "outcome r d = (if fst r then Inr () else Inl TransportError, d\<lparr>trace := snd r\<rparr>)"

text \<open>
  The register writes of a flush of the buffer \<open>buf\<close>: addresses 0 to 15 in ascending
  order, each with the row byte of that address.
\<close>

definition row_writes :: "int list \<Rightarrow> bus_op list" where
  "row_writes buf = map (\<lambda>a. RegisterWriteU8 (int a) (buf ! a)) [0..<16]"

text \<open>
  The bus calls of a construction that runs to completion: system setup with the
  oscillator on, the 16 rows of the zeroed buffer, blink off, brightness 15.
\<close>

definition init_sequence :: "bus_op list" where
  "init_sequence =
     Write 0x21 # map (\<lambda>a. RegisterWriteU8 (int a) 0x00) [0..<16] @ [Write 0x81, Write 0xEF]"

text \<open>
  A device state and a bitmap to run the operations on.
\<close>

definition example_device :: device where
  "example_device =
     \<lparr>display_buffer = [1, 2, 4, 8, 16, 32, 64, 128, 255, 0, 170, 85, 15, 240, 60, 195],
      trace = []\<rparr>"

definition example_bitmap :: "pyval list list" where
  "example_bitmap =
     [PyInt 0, PyInt 1, PyBool True, PyBool False, PyInt 1, PyInt 0, PyInt 0, PyBool True]
     # replicate 15 (replicate 8 (PyInt 0))"

text \<open>
  A bus on which every call fails.
\<close>

definition dead_bus :: transport where
  "dead_bus tr c = False"

section \<open>Properties\<close>

lemmas consts_defs =
  BLINK_OFF_def BLINK_2HZ_def BLINK_1HZ_def BLINK_HALFHZ_def BLINK_DISPLAYON_def
  SYSTEM_OSCILLATOR_ON_def CMD_BLINK_def CMD_BRIGHTNESS_def CMD_SYSTEM_SETUP_def
  MEM_ROWS_def MEM_COLS_def

subsection \<open>Rejected coordinates\<close>

lemma getitem_reject:
  "\<not> (0 \<le> row \<and> row < 16 \<and> 0 \<le> column \<and> column < 8) \<Longrightarrow>
   getitem (row, column) d = Inl AssertionError"
  by (auto simp: getitem_def MEM_ROWS_def MEM_COLS_def)

lemma setitem_reject:
  "\<not> (0 \<le> row \<and> row < 16 \<and> 0 \<le> column \<and> column < 8) \<Longrightarrow>
   setitem (row, column) v d = (Inl AssertionError, d)"
  by (auto simp: setitem_def Let_def MEM_ROWS_def MEM_COLS_def)

text \<open>
  C5: for every coordinate pair with row at least 16 or column at least 8, reading the
  bit and writing the bit (whatever the value) both raise the assertion error of the
  range check, and the failed write leaves the device, its buffer included, as it was.
\<close>

theorem out_of_range_high:
  "16 \<le> row \<or> 8 \<le> column \<Longrightarrow>
   getitem (row, column) d = Inl AssertionError \<and>
   setitem (row, column) v d = (Inl AssertionError, d)"
  using getitem_reject [of row column d] setitem_reject [of row column v d] by auto

theorem out_of_range_high_witness:
  "getitem (16, 0) \<lparr>display_buffer = replicate 16 255, trace = []\<rparr> = Inl AssertionError \<and>
   setitem (3, 8) (PyInt 1) \<lparr>display_buffer = replicate 16 0, trace = []\<rparr>
     = (Inl AssertionError, \<lparr>display_buffer = replicate 16 0, trace = []\<rparr>)"
  using out_of_range_high [of 16 0 "\<lparr>display_buffer = replicate 16 255, trace = []\<rparr>" "PyInt 1"]
    out_of_range_high [of 3 8 "\<lparr>display_buffer = replicate 16 0, trace = []\<rparr>" "PyInt 1"]
  by simp

text \<open>
  C10: the range checks are two-sided. A negative row or a negative column is rejected
  with the assertion error by both the read and the write, so the row storage is never
  indexed from its end (where \<open>py_index\<close> would wrap), and the rejected write leaves
  the device, its buffer included, as it was.
\<close>

theorem negative_rejected:
  "row < 0 \<or> column < 0 \<Longrightarrow>
   getitem (row, column) d = Inl AssertionError \<and>
   setitem (row, column) v d = (Inl AssertionError, d)"
  using getitem_reject [of row column d] setitem_reject [of row column v d] by auto

theorem negative_rejected_witness:
  "getitem (- 1, 0) \<lparr>display_buffer = replicate 16 255, trace = []\<rparr> = Inl AssertionError \<and>
   setitem (0, - 1) (PyInt 1) \<lparr>display_buffer = replicate 16 0, trace = []\<rparr>
     = (Inl AssertionError, \<lparr>display_buffer = replicate 16 0, trace = []\<rparr>)"
  using negative_rejected [of "- 1" 0 "\<lparr>display_buffer = replicate 16 255, trace = []\<rparr>" "PyInt 1"]
    negative_rejected [of 0 "- 1" "\<lparr>display_buffer = replicate 16 0, trace = []\<rparr>" "PyInt 1"]
  by simp

subsection \<open>Deleting a bit\<close>

text \<open>
  C8: deleting a bit fails for every key, valid or not, with the runtime error
  "Cannot delete bits", and the device, its buffer included, is as it was.
\<close>

theorem delitem_unsupported:
  "delitem key d = (Inl (RuntimeError ''Cannot delete bits''), d) \<and>
   display_buffer (snd (delitem key d)) = display_buffer d"
  by (simp add: delitem_def)

subsection \<open>Bits of a row\<close>

lemma bit_0xFFFF: "bit (0xFFFF::int) n = (n < 16)"
proof -
  have h: "(0xFFFF::int) = mask 16" by (simp add: mask_eq_exp_minus_1)
  show ?thesis unfolding h by (simp add: bit_mask_iff)
qed

lemma get_as_bit: "drop_bit c (v::int) AND 1 = of_bool (bit v c)"
  by (simp add: and_one_eq bit_iff_odd_drop_bit mod_2_eq_odd)

lemma set_bit_get:
  "drop_bit n ((b::int) OR push_bit c 1) AND 1 = (if n = c then 1 else drop_bit n b AND 1)"
  unfolding get_as_bit by (auto simp: bit_or_iff bit_push_bit_iff bit_1_iff bit_exp_iff)

lemma clear_bit_get:
  "n < 16 \<Longrightarrow> drop_bit n ((b::int) AND (NOT (push_bit c 1) AND 0xFFFF)) AND 1
     = (if n = c then 0 else drop_bit n b AND 1)"
  unfolding get_as_bit by (auto simp: bit_and_iff bit_not_iff bit_push_bit_iff bit_1_iff bit_exp_iff bit_0xFFFF)

lemma set_bit_byte:
  assumes "0 \<le> (b::int)" "b < 256" "c < 8"
  shows "0 \<le> b OR push_bit c 1 \<and> b OR push_bit c 1 < 256"
proof -
  have "(2::int) ^ c < 2 ^ 8" using assms(3) by (intro power_strict_increasing) simp_all
  then have "push_bit c (1::int) < 2 ^ 8" by (simp add: push_bit_eq_mult)
  with assms have "b OR push_bit c 1 < 2 ^ 8" by (intro OR_upper) simp_all
  moreover have "0 \<le> b OR push_bit c 1" using assms(1) by simp
  ultimately show ?thesis by simp
qed

lemma clear_bit_byte:
  assumes "0 \<le> (b::int)" "b < 256"
  shows "0 \<le> b AND m \<and> b AND m < 256"
  using assms AND_upper1 [of b m] AND_lower [of b m] by simp

lemma or_brightness: "0 \<le> v \<Longrightarrow> v \<le> 15 \<Longrightarrow> (0xE0::int) OR v = 224 + v"
proof -
  assume "0 \<le> v" "v \<le> 15"
  then have "v = 0 \<or> v = 1 \<or> v = 2 \<or> v = 3 \<or> v = 4 \<or> v = 5 \<or> v = 6 \<or> v = 7 \<or> v = 8
     \<or> v = 9 \<or> v = 10 \<or> v = 11 \<or> v = 12 \<or> v = 13 \<or> v = 14 \<or> v = 15" by presburger
  then show ?thesis by (elim disjE) simp_all
qed

subsection \<open>Reading and writing one bit\<close>

lemma is_bit_iff: "is_bit e \<longleftrightarrow> e \<in> {PyInt 0, PyInt 1, PyBool False, PyBool True}"
  by (cases e) (auto simp: is_bit_def py_in_def py_eq_def)

lemma is_bit_num: "is_bit e \<longleftrightarrow> py_num e = Some 0 \<or> py_num e = Some 1"
  by (cases e) (auto simp: is_bit_def py_in_def py_eq_def)

lemma wf_buffer_nth:
  "wf_buffer buf \<Longrightarrow> i < 16 \<Longrightarrow> 0 \<le> buf ! i \<and> buf ! i < 256"
  by (simp add: wf_buffer_def list_all_length)

lemma wf_buffer_update:
  "wf_buffer buf \<Longrightarrow> 0 \<le> v \<Longrightarrow> v < 256 \<Longrightarrow> wf_buffer (buf[i := v])"
  by (auto simp: wf_buffer_def list_all_iff dest!: set_update_subset_insert [THEN subsetD])

lemma getitem_valid:
  assumes "length (display_buffer d) = 16" "0 \<le> row" "row < 16" "0 \<le> column" "column < 8"
  shows "getitem (row, column) d
           = Inr (drop_bit (nat column) (display_buffer d ! nat row) AND 1)"
  using assms by (simp add: getitem_def py_index_def MEM_ROWS_def MEM_COLS_def)

lemma update_row_valid:
  assumes "length (display_buffer d) = 16" "0 \<le> row" "row < 16"
    "0 \<le> f (display_buffer d ! nat row)" "f (display_buffer d ! nat row) < 256"
  shows "update_row row f d
           = (Inr (), d\<lparr>display_buffer :=
                (display_buffer d)[nat row := f (display_buffer d ! nat row)]\<rparr>)"
  using assms by (simp add: update_row_def py_index_def bytearray_store_def)

lemma new_row_byte:
  "0 \<le> old \<Longrightarrow> old < 256 \<Longrightarrow> c < 8 \<Longrightarrow> 0 \<le> new_row b c old \<and> new_row b c old < 256"
  using set_bit_byte [of old c] clear_bit_byte [of old "NOT (push_bit c 0x1) AND 0xFFFF"]
  by (simp add: new_row_def)

lemma new_row_get:
  "b \<in> {0, 1} \<Longrightarrow> n < 8 \<Longrightarrow>
   drop_bit n (new_row b c old) AND 1 = (if n = c then b else drop_bit n old AND 1)"
  using set_bit_get [of n old c] clear_bit_get [of n old c]
  by (auto simp: new_row_def)

lemma setitem_valid:
  assumes wf: "wf_buffer (display_buffer d)"
    and rc: "0 \<le> row" "row < 16" "0 \<le> column" "column < 8"
    and v: "py_num v = Some b" "b \<in> {0, 1}"
  shows "setitem (row, column) v d
           = (Inr (), d\<lparr>display_buffer :=
                (display_buffer d)[nat row := new_row b (nat column) (display_buffer d ! nat row)]\<rparr>)"
proof -
  let ?old = "display_buffer d ! nat row"
  have len: "length (display_buffer d) = 16" using wf by (simp add: wf_buffer_def)
  have old: "0 \<le> ?old \<and> ?old < 256" using wf rc by (intro wf_buffer_nth) simp_all
  have c8: "nat column < 8" using rc by simp
  have byte: "0 \<le> new_row b (nat column) ?old \<and> new_row b (nat column) ?old < 256"
    using old c8 by (simp add: new_row_byte)
  show ?thesis
  proof (cases "b = 0")
    case True
    then have sel: "setitem (row, column) v d
        = update_row row (\<lambda>x. x AND (NOT (push_bit (nat column) 0x1) AND 0xFFFF)) d"
      using v rc by (cases v) (auto simp: setitem_def Let_def py_in_def py_eq_def
          MEM_ROWS_def MEM_COLS_def split: if_splits)
    show ?thesis unfolding sel using byte True
      by (subst update_row_valid [OF len rc(1,2)]) (simp_all add: new_row_def)
  next
    case False
    then have b1: "b = 1" using v by simp
    then have sel: "setitem (row, column) v d
        = update_row row (\<lambda>x. x OR push_bit (nat column) 0x1) d"
      using v rc by (cases v) (auto simp: setitem_def Let_def py_in_def py_eq_def
          MEM_ROWS_def MEM_COLS_def split: if_splits)
    show ?thesis unfolding sel using byte b1
      by (subst update_row_valid [OF len rc(1,2)]) (simp_all add: new_row_def)
  qed
qed

lemma setitem_get:
  assumes wf: "wf_buffer (display_buffer d)"
    and rc: "0 \<le> row" "row < 16" "0 \<le> column" "column < 8"
    and v: "py_num v = Some b" "b \<in> {0, 1}"
  shows "\<exists>d'. setitem (row, column) v d = (Inr (), d') \<and>
           wf_buffer (display_buffer d') \<and> trace d' = trace d \<and>
           (\<forall>r c. 0 \<le> r \<and> r < 16 \<and> 0 \<le> c \<and> c < 8 \<longrightarrow>
              getitem (r, c) d' = (if r = row \<and> c = column then Inr b else getitem (r, c) d))"
proof -
  let ?old = "display_buffer d ! nat row"
  let ?d' = "d\<lparr>display_buffer := (display_buffer d)[nat row := new_row b (nat column) ?old]\<rparr>"
  have len: "length (display_buffer d) = 16" using wf by (simp add: wf_buffer_def)
  have old: "0 \<le> ?old \<and> ?old < 256" using wf rc by (intro wf_buffer_nth) simp_all
  have byte: "0 \<le> new_row b (nat column) ?old \<and> new_row b (nat column) ?old < 256"
    using old rc by (simp add: new_row_byte)
  have 1: "setitem (row, column) v d = (Inr (), ?d')"
    by (rule setitem_valid [OF wf rc v])
  have 2: "wf_buffer (display_buffer ?d')" using wf byte by (simp add: wf_buffer_update)
  have 3: "getitem (r, c) ?d' = (if r = row \<and> c = column then Inr b else getitem (r, c) d)"
    if "0 \<le> r \<and> r < 16 \<and> 0 \<le> c \<and> c < 8" for r c
  proof -
    have len': "length (display_buffer ?d') = 16" using len by simp
    have g': "getitem (r, c) ?d' = Inr (drop_bit (nat c) (display_buffer ?d' ! nat r) AND 1)"
      using that by (intro getitem_valid [OF len']) simp_all
    have g: "getitem (r, c) d = Inr (drop_bit (nat c) (display_buffer d ! nat r) AND 1)"
      using that by (intro getitem_valid [OF len]) simp_all
    show ?thesis
    proof (cases "r = row")
      case True
      have c8: "nat c < 8" using that by arith
      have "drop_bit (nat c) (new_row b (nat column) ?old) AND 1
          = (if nat c = nat column then b else drop_bit (nat c) ?old AND 1)"
        by (rule new_row_get [OF v(2) c8])
      moreover have "nat c = nat column \<longleftrightarrow> c = column" using that rc by auto
      ultimately show ?thesis using True g g' len rc by simp
    next
      case False
      then have "nat r \<noteq> nat row" using that rc by auto
      then show ?thesis using False g g' by simp
    qed
  qed
  show ?thesis using 1 2 3 by (intro exI [of _ ?d']) simp
qed

text \<open>
  C1: on any buffer the driver can hold, for a row in \<open>[0,16)\<close>, a column in
  \<open>[0,8)\<close> and a bit \<open>b\<close> of 0 or 1, writing \<open>b\<close> at (row, column) succeeds, reading
  (row, column) afterwards returns \<open>b\<close>, and reading any other valid coordinate returns
  what it returned before. The buffer stays one the driver can hold and no bus call
  is made.
\<close>

theorem set_then_get:
  assumes "wf_buffer (display_buffer d)"
    and "0 \<le> row" "row < 16" "0 \<le> column" "column < 8"
    and "b = 0 \<or> b = 1"
  shows "\<exists>d'. setitem (row, column) (PyInt b) d = (Inr (), d') \<and>
           getitem (row, column) d' = Inr b \<and>
           (\<forall>r c. 0 \<le> r \<and> r < 16 \<and> 0 \<le> c \<and> c < 8 \<and> (r, c) \<noteq> (row, column) \<longrightarrow>
              getitem (r, c) d' = getitem (r, c) d) \<and>
           wf_buffer (display_buffer d') \<and> trace d' = trace d"
proof -
  have b: "py_num (PyInt b) = Some b" "b \<in> {0, 1}" using assms(6) by auto
  obtain d' where d': "setitem (row, column) (PyInt b) d = (Inr (), d')"
    "wf_buffer (display_buffer d')" "trace d' = trace d"
    "\<forall>r c. 0 \<le> r \<and> r < 16 \<and> 0 \<le> c \<and> c < 8 \<longrightarrow>
       getitem (r, c) d' = (if r = row \<and> c = column then Inr b else getitem (r, c) d)"
    using setitem_get [OF assms(1-5) b] by blast
  have "getitem (row, column) d' = Inr b" using d'(4) assms(2-5) by simp
  moreover have "getitem (r, c) d' = getitem (r, c) d"
    if "0 \<le> r \<and> r < 16 \<and> 0 \<le> c \<and> c < 8 \<and> (r, c) \<noteq> (row, column)" for r c
    using d'(4) that by auto
  ultimately show ?thesis using d'(1-3) by (intro exI [of _ d']) simp
qed

theorem set_then_get_witness:
  "wf_buffer (display_buffer example_device) \<and>
   (\<exists>d'. setitem (3, 5) (PyInt 1) example_device = (Inr (), d') \<and>
      getitem (3, 5) d' = Inr 1 \<and> getitem (3, 3) d' = Inr 1 \<and>
      getitem (3, 3) example_device = Inr 1 \<and> getitem (3, 5) example_device = Inr 0)"
proof -
  have wf: "wf_buffer (display_buffer example_device)"
    by (simp add: example_device_def wf_buffer_def)
  obtain d' where d': "setitem (3, 5) (PyInt 1) example_device = (Inr (), d')"
    "getitem (3, 5) d' = Inr 1"
    "\<forall>r c. 0 \<le> r \<and> r < 16 \<and> 0 \<le> c \<and> c < 8 \<and> (r, c) \<noteq> (3, 5) \<longrightarrow>
       getitem (r, c) d' = getitem (r, c) example_device"
    using set_then_get [OF wf, of 3 5 1] by auto
  have old3: "getitem (3, 3) example_device = Inr 1"
    by (simp add: getitem_def py_index_def example_device_def MEM_ROWS_def MEM_COLS_def)
  have old5: "getitem (3, 5) example_device = Inr 0"
    by (simp add: getitem_def py_index_def example_device_def MEM_ROWS_def MEM_COLS_def)
  have "getitem (3, 3) d' = getitem (3, 3) example_device"
    using d'(3) [rule_format, of 3 3] by simp
  then show ?thesis using wf d'(1,2) old3 old5 by simp
qed

subsection \<open>Loading a bitmap\<close>

lemma valid_bitmap_cell:
  assumes "valid_bitmap M" "0 \<le> r" "r < 16" "0 \<le> c" "c < 8"
  shows "py_index M r = Inr (M ! nat r)"
    and "py_index (M ! nat r) c = Inr (M ! nat r ! nat c)"
    and "py_num (M ! nat r ! nat c) = Some (cell M r c)"
    and "cell M r c \<in> {0, 1}"
proof -
  have len: "length M = 16" using assms(1) by (simp add: valid_bitmap_def)
  have r: "nat r < length M" using assms len by simp
  have row: "length (M ! nat r) = 8 \<and> list_all is_bit (M ! nat r)"
    using assms(1) r by (simp add: valid_bitmap_def list_all_length)
  have c: "nat c < length (M ! nat r)" using assms row by simp
  have "is_bit (M ! nat r ! nat c)" using row c by (simp add: list_all_length)
  then have num: "py_num (M ! nat r ! nat c) = Some 0 \<or> py_num (M ! nat r ! nat c) = Some 1"
    by (simp add: is_bit_num)
  show "py_index M r = Inr (M ! nat r)" using assms len by (simp add: py_index_def)
  show "py_index (M ! nat r) c = Inr (M ! nat r ! nat c)"
    using assms row by (simp add: py_index_def)
  show "py_num (M ! nat r ! nat c) = Some (cell M r c)" using num by (auto simp: cell_def)
  show "cell M r c \<in> {0, 1}" using num by (auto simp: cell_def)
qed

lemma int_range_mem: "0 \<le> i \<Longrightarrow> i < int n \<Longrightarrow> i \<in> set (map int [0..<n])"
proof -
  assume "0 \<le> i" "i < int n"
  then have "i = int (nat i)" "nat i \<in> {0..<n}" by auto
  then show ?thesis unfolding set_map set_upt by (rule image_eqI)
qed

lemma copy_columns_spec:
  assumes M: "valid_bitmap M" and row: "0 \<le> row" "row < 16"
  shows "wf_buffer (display_buffer d) \<Longrightarrow> (\<forall>c \<in> set cs. 0 \<le> c \<and> c < 8) \<Longrightarrow>
     \<exists>d'. copy_columns M row cs d = (Inr (), d') \<and>
          wf_buffer (display_buffer d') \<and> trace d' = trace d \<and>
          (\<forall>r c. 0 \<le> r \<and> r < 16 \<and> 0 \<le> c \<and> c < 8 \<longrightarrow>
             getitem (r, c) d'
               = (if r = row \<and> c \<in> set cs then Inr (cell M r c) else getitem (r, c) d))"
proof (induction cs arbitrary: d)
  case Nil
  then show ?case by simp
next
  case (Cons c cs)
  have c: "0 \<le> c" "c < 8" using Cons.prems(2) by simp_all
  note vc = valid_bitmap_cell [OF M row c]
  obtain d1 where d1: "setitem (row, c) (M ! nat row ! nat c) d = (Inr (), d1)"
    "wf_buffer (display_buffer d1)" "trace d1 = trace d"
    "\<forall>r' c'. 0 \<le> r' \<and> r' < 16 \<and> 0 \<le> c' \<and> c' < 8 \<longrightarrow>
        getitem (r', c') d1
          = (if r' = row \<and> c' = c then Inr (cell M row c) else getitem (r', c') d)"
    using setitem_get [OF Cons.prems(1) row c vc(3) vc(4)] by blast
  have rest: "\<forall>c \<in> set cs. 0 \<le> c \<and> c < 8" using Cons.prems(2) by simp
  obtain d2 where d2: "copy_columns M row cs d1 = (Inr (), d2)"
    "wf_buffer (display_buffer d2)" "trace d2 = trace d1"
    "\<forall>r' c'. 0 \<le> r' \<and> r' < 16 \<and> 0 \<le> c' \<and> c' < 8 \<longrightarrow>
        getitem (r', c') d2
          = (if r' = row \<and> c' \<in> set cs then Inr (cell M r' c') else getitem (r', c') d1)"
    using Cons.IH [OF d1(2) rest] by blast
  have run: "copy_columns M row (c # cs) d = (Inr (), d2)"
    using vc(1,2) d1(1) d2(1) by simp
  have cells: "getitem (r', c') d2
      = (if r' = row \<and> c' \<in> set (c # cs) then Inr (cell M r' c') else getitem (r', c') d)"
    if "0 \<le> r' \<and> r' < 16 \<and> 0 \<le> c' \<and> c' < 8" for r' c'
    using d2(4) d1(4) that by auto
  show ?case using run d2(2) d2(3) d1(3) cells by (intro exI [of _ d2]) simp
qed

lemma copy_rows_spec:
  assumes M: "valid_bitmap M"
  shows "wf_buffer (display_buffer d) \<Longrightarrow> (\<forall>r \<in> set rs. 0 \<le> r \<and> r < 16) \<Longrightarrow>
     \<exists>d'. copy_rows M rs d = (Inr (), d') \<and>
          wf_buffer (display_buffer d') \<and> trace d' = trace d \<and>
          (\<forall>r c. 0 \<le> r \<and> r < 16 \<and> 0 \<le> c \<and> c < 8 \<longrightarrow>
             getitem (r, c) d'
               = (if r \<in> set rs then Inr (cell M r c) else getitem (r, c) d))"
proof (induction rs arbitrary: d)
  case Nil
  then show ?case by simp
next
  case (Cons row rs)
  have row: "0 \<le> row" "row < 16" using Cons.prems(2) by simp_all
  have cols: "\<forall>c \<in> set (map int [0..<nat MEM_COLS]). 0 \<le> c \<and> c < 8"
    by (auto simp: MEM_COLS_def)
  have colset: "c \<in> set (map int [0..<nat MEM_COLS])" if "0 \<le> c \<and> c < 8" for c
    using that int_range_mem [of c "nat MEM_COLS"] by (simp add: MEM_COLS_def)
  obtain d1 where d1: "copy_columns M row (map int [0..<nat MEM_COLS]) d = (Inr (), d1)"
    "wf_buffer (display_buffer d1)" "trace d1 = trace d"
    "\<forall>r' c'. 0 \<le> r' \<and> r' < 16 \<and> 0 \<le> c' \<and> c' < 8 \<longrightarrow>
        getitem (r', c') d1
          = (if r' = row \<and> c' \<in> set (map int [0..<nat MEM_COLS])
             then Inr (cell M r' c') else getitem (r', c') d)"
    using copy_columns_spec [OF M row Cons.prems(1) cols] by blast
  have rest: "\<forall>r \<in> set rs. 0 \<le> r \<and> r < 16" using Cons.prems(2) by simp
  obtain d2 where d2: "copy_rows M rs d1 = (Inr (), d2)"
    "wf_buffer (display_buffer d2)" "trace d2 = trace d1"
    "\<forall>r' c'. 0 \<le> r' \<and> r' < 16 \<and> 0 \<le> c' \<and> c' < 8 \<longrightarrow>
        getitem (r', c') d2
          = (if r' \<in> set rs then Inr (cell M r' c') else getitem (r', c') d1)"
    using Cons.IH [OF d1(2) rest] by blast
  have run: "copy_rows M (row # rs) d = (Inr (), d2)"
    using d1(1) d2(1) by simp
  have cells: "getitem (r', c') d2
      = (if r' \<in> set (row # rs) then Inr (cell M r' c') else getitem (r', c') d)"
    if "0 \<le> r' \<and> r' < 16 \<and> 0 \<le> c' \<and> c' < 8" for r' c'
    using d2(4) d1(4) that colset [of c'] by auto
  show ?case using run d2(2) d2(3) d1(3) cells by (intro exI [of _ d2]) simp
qed

lemma check_rows_iff:
  "check_rows M = Inr () \<longleftrightarrow> list_all (\<lambda>r. length r = 8 \<and> list_all is_bit r) M"
  by (induction M) (auto simp: MEM_COLS_def)

lemma check_rows_error: "check_rows M = Inl e \<Longrightarrow> e = AssertionError"
  by (induction M) (auto split: if_splits)

lemma write_bitmap_invalid:
  "\<not> valid_bitmap M \<Longrightarrow> write_bitmap M d = (Inl AssertionError, d)"
proof -
  assume inv: "\<not> valid_bitmap M"
  show ?thesis
  proof (cases "length M = 16")
    case False
    then show ?thesis by (simp add: write_bitmap_def MEM_ROWS_def)
  next
    case True
    then have "check_rows M \<noteq> Inr ()" using inv by (simp add: check_rows_iff valid_bitmap_def)
    then obtain e where "check_rows M = Inl e" by (cases "check_rows M") auto
    then have "check_rows M = Inl AssertionError" using check_rows_error by blast
    then show ?thesis by (simp add: write_bitmap_def)
  qed
qed

lemma write_bitmap_valid:
  assumes M: "valid_bitmap M" and wf: "wf_buffer (display_buffer d)"
  shows "\<exists>d'. write_bitmap M d = (Inr (), d') \<and>
          wf_buffer (display_buffer d') \<and> trace d' = trace d \<and>
          (\<forall>r c. 0 \<le> r \<and> r < 16 \<and> 0 \<le> c \<and> c < 8 \<longrightarrow>
             getitem (r, c) d' = Inr (cell M r c))"
proof -
  have rows: "\<forall>r \<in> set (map int [0..<nat MEM_ROWS]). 0 \<le> r \<and> r < 16"
    by (auto simp: MEM_ROWS_def)
  have rowset: "r \<in> set (map int [0..<nat MEM_ROWS])" if "0 \<le> r \<and> r < 16" for r
    using that int_range_mem [of r "nat MEM_ROWS"] by (simp add: MEM_ROWS_def)
  have chk: "check_rows M = Inr ()" using M by (simp add: check_rows_iff valid_bitmap_def)
  have run: "write_bitmap M d = copy_rows M (map int [0..<nat MEM_ROWS]) d"
    using M chk by (simp add: write_bitmap_def valid_bitmap_def MEM_ROWS_def)
  obtain d' where d': "copy_rows M (map int [0..<nat MEM_ROWS]) d = (Inr (), d')"
    "wf_buffer (display_buffer d')" "trace d' = trace d"
    "\<forall>r c. 0 \<le> r \<and> r < 16 \<and> 0 \<le> c \<and> c < 8 \<longrightarrow>
        getitem (r, c) d'
          = (if r \<in> set (map int [0..<nat MEM_ROWS]) then Inr (cell M r c) else getitem (r, c) d)"
    using copy_rows_spec [OF M wf rows] by blast
  have "getitem (r, c) d' = Inr (cell M r c)"
    if "0 \<le> r \<and> r < 16 \<and> 0 \<le> c \<and> c < 8" for r c
    using d'(4) that rowset [of r] by auto
  then show ?thesis using run d'(1,2,3) by (intro exI [of _ d']) simp
qed

text \<open>
  C3: the round trip. For a bitmap of 16 rows of 8 elements, each of them 0, 1, False
  or True, and any buffer the driver can hold, \<^verbatim>\<open>write_bitmap\<close> succeeds, and reading
  any cell (row, column) afterwards returns the integer of the bitmap's element at that
  place, with True and False read back as 1 and 0 (\<open>py_num\<close>).
\<close>

theorem load_bitmap_round_trip:
  assumes "wf_buffer (display_buffer d)"
    and "length M = 16"
    and "\<forall>row \<in> set M. length row = 8 \<and>
           (\<forall>e \<in> set row. e \<in> {PyInt 0, PyInt 1, PyBool False, PyBool True})"
  shows "\<exists>d'. write_bitmap M d = (Inr (), d') \<and>
           (\<forall>r c. 0 \<le> r \<and> r < 16 \<and> 0 \<le> c \<and> c < 8 \<longrightarrow>
              (\<exists>b. py_num (M ! nat r ! nat c) = Some b \<and> getitem (r, c) d' = Inr b))"
proof -
  have M: "valid_bitmap M"
    using assms(2,3) by (simp add: valid_bitmap_def list_all_iff is_bit_iff)
  obtain d' where d': "write_bitmap M d = (Inr (), d')"
    "\<forall>r c. 0 \<le> r \<and> r < 16 \<and> 0 \<le> c \<and> c < 8 \<longrightarrow> getitem (r, c) d' = Inr (cell M r c)"
    using write_bitmap_valid [OF M assms(1)] by blast
  have "\<exists>b. py_num (M ! nat r ! nat c) = Some b \<and> getitem (r, c) d' = Inr b"
    if "0 \<le> r \<and> r < 16 \<and> 0 \<le> c \<and> c < 8" for r c
    using d'(2) that valid_bitmap_cell(3) [OF M, of r c] by simp
  then show ?thesis using d'(1) by (intro exI [of _ d']) simp
qed

theorem load_bitmap_round_trip_witness:
  "\<exists>d'. write_bitmap example_bitmap example_device = (Inr (), d') \<and>
      getitem (0, 0) d' = Inr 0 \<and> getitem (0, 2) d' = Inr 1 \<and> getitem (8, 7) d' = Inr 0"
proof -
  have wf: "wf_buffer (display_buffer example_device)"
    by (simp add: example_device_def wf_buffer_def)
  have len: "length example_bitmap = 16" by (simp add: example_bitmap_def)
  have rows: "\<forall>row \<in> set example_bitmap. length row = 8 \<and>
           (\<forall>e \<in> set row. e \<in> {PyInt 0, PyInt 1, PyBool False, PyBool True})"
    by (simp add: example_bitmap_def)
  obtain d' where d': "write_bitmap example_bitmap example_device = (Inr (), d')"
    "\<forall>r c. 0 \<le> r \<and> r < 16 \<and> 0 \<le> c \<and> c < 8 \<longrightarrow>
       (\<exists>b. py_num (example_bitmap ! nat r ! nat c) = Some b \<and> getitem (r, c) d' = Inr b)"
    using load_bitmap_round_trip [OF wf len rows] by blast
  have "getitem (0, 0) d' = Inr 0"
    using d'(2) [rule_format, of 0 0] by (simp add: example_bitmap_def)
  moreover have "getitem (0, 2) d' = Inr 1"
    using d'(2) [rule_format, of 0 2] by (simp add: example_bitmap_def)
  moreover have "getitem (8, 7) d' = Inr 0"
    using d'(2) [rule_format, of 8 7] by (simp add: example_bitmap_def nth_Cons' nth_append)
  ultimately show ?thesis using d'(1) by simp
qed

text \<open>
  C4: a bitmap that does not have 16 rows, or has a row that does not have 8 elements,
  or has an element that is not 0, 1, False or True, is rejected by the assertions of the
  consistency check, which run before the copy: the call raises the assertion error and
  the device, its buffer included, is as it was.
\<close>

theorem load_bitmap_rejects:
  "length M \<noteq> 16 \<or> (\<exists>row \<in> set M. length row \<noteq> 8) \<or>
   (\<exists>row \<in> set M. \<exists>e \<in> set row. e \<notin> {PyInt 0, PyInt 1, PyBool False, PyBool True}) \<Longrightarrow>
   write_bitmap M d = (Inl AssertionError, d)"
proof -
  assume "length M \<noteq> 16 \<or> (\<exists>row \<in> set M. length row \<noteq> 8) \<or>
   (\<exists>row \<in> set M. \<exists>e \<in> set row. e \<notin> {PyInt 0, PyInt 1, PyBool False, PyBool True})"
  then have "\<not> valid_bitmap M"
    by (auto simp: valid_bitmap_def list_all_iff is_bit_iff)
  then show ?thesis by (rule write_bitmap_invalid)
qed

theorem load_bitmap_rejects_witness:
  "write_bitmap (replicate 15 (replicate 8 (PyInt 0))) example_device
     = (Inl AssertionError, example_device) \<and>
   write_bitmap (replicate 16 (replicate 7 (PyInt 0))) example_device
     = (Inl AssertionError, example_device) \<and>
   write_bitmap (replicate 15 (replicate 8 (PyInt 1)) @ [replicate 7 (PyInt 1) @ [PyInt 2]])
       example_device
     = (Inl AssertionError, example_device)"
  using load_bitmap_rejects [of "replicate 15 (replicate 8 (PyInt 0))" example_device]
    load_bitmap_rejects [of "replicate 16 (replicate 7 (PyInt 0))" example_device]
    load_bitmap_rejects [of "replicate 15 (replicate 8 (PyInt 1)) @ [replicate 7 (PyInt 1) @ [PyInt 2]]"
      example_device]
  by simp

subsection \<open>Bus traces\<close>

lemma attempt_append:
  "attempt ok tr (xs @ ys) =
     (if fst (attempt ok tr xs) then attempt ok (snd (attempt ok tr xs)) ys
      else attempt ok tr xs)"
  by (induction xs arbitrary: tr) simp_all

lemma attempt_all_ok:
  "(\<forall>k < length cs. ok (tr @ take k cs) (cs ! k)) \<Longrightarrow> attempt ok tr cs = (True, tr @ cs)"
proof (induction cs arbitrary: tr)
  case Nil
  then show ?case by simp
next
  case (Cons c cs)
  have first: "ok tr c" using Cons.prems [rule_format, of 0] by simp
  have "ok ((tr @ [c]) @ take k cs) (cs ! k)" if "k < length cs" for k
    using Cons.prems [rule_format, of "Suc k"] that by simp
  then have "attempt ok (tr @ [c]) cs = (True, (tr @ [c]) @ cs)"
    by (intro Cons.IH) simp
  then show ?case using first by simp
qed

lemma attempt_first_fail:
  "k < length cs \<Longrightarrow> (\<forall>j < k. ok (tr @ take j cs) (cs ! j)) \<Longrightarrow>
   \<not> ok (tr @ take k cs) (cs ! k) \<Longrightarrow>
   attempt ok tr cs = (False, tr @ take (Suc k) cs)"
proof (induction cs arbitrary: tr k)
  case Nil
  then show ?case by simp
next
  case (Cons c cs)
  show ?case
  proof (cases k)
    case 0
    then show ?thesis using Cons.prems(3) by simp
  next
    case (Suc k')
    have first: "ok tr c" using Cons.prems(2) [rule_format, of 0] Suc by simp
    have len: "k' < length cs" using Cons.prems(1) Suc by simp
    have before: "\<forall>j < k'. ok ((tr @ [c]) @ take j cs) (cs ! j)"
    proof (intro allI impI)
      fix j assume "j < k'"
      then show "ok ((tr @ [c]) @ take j cs) (cs ! j)"
        using Cons.prems(2) [rule_format, of "Suc j"] Suc by simp
    qed
    have fails: "\<not> ok ((tr @ [c]) @ take k' cs) (cs ! k')"
      using Cons.prems(3) Suc by simp
    have "attempt ok (tr @ [c]) cs = (False, (tr @ [c]) @ take (Suc k') cs)"
      by (rule Cons.IH [OF len before fails])
    then show ?thesis using first Suc by simp
  qed
qed

lemma bus_call_outcome: "bus_call ok c d = outcome (attempt ok (trace d) [c]) d"
  by (simp add: bus_call_def outcome_def)

lemma outcome_trace_upd: "outcome r (d\<lparr>trace := t\<rparr>) = outcome r d"
  by (simp add: outcome_def)

lemma flush_loop_outcome:
  "flush_loop ok ps d
     = outcome (attempt ok (trace d) (map (\<lambda>(a, v). RegisterWriteU8 a v) ps)) d"
proof (induction ps arbitrary: d)
  case Nil
  then show ?case by (simp add: outcome_def)
next
  case (Cons p ps)
  obtain a v where p: "p = (a, v)" by (cases p)
  show ?case
  proof (cases "ok (trace d) (RegisterWriteU8 a v)")
    case True
    then have "flush_loop ok (p # ps) d
        = flush_loop ok ps (d\<lparr>trace := trace d @ [RegisterWriteU8 a v]\<rparr>)"
      by (simp add: p register_write_u8_def bus_call_def)
    then show ?thesis using True by (simp add: Cons.IH p outcome_trace_upd)
  next
    case False
    then show ?thesis by (simp add: p register_write_u8_def bus_call_def outcome_def)
  qed
qed

lemma enumerate_row_writes:
  assumes "length buf = 16"
  shows "map (\<lambda>(a, v). RegisterWriteU8 a v) (enumerate_py buf) = row_writes buf"
  using assms by (intro nth_equalityI) (simp_all add: enumerate_py_def row_writes_def)

lemma flush_outcome:
  "length (display_buffer d) = 16 \<Longrightarrow>
   flush ok d = outcome (attempt ok (trace d) (row_writes (display_buffer d))) d"
  by (simp add: flush_def flush_loop_outcome enumerate_row_writes)

lemma then_do_outcome:
  assumes "\<And>t. f (d\<lparr>trace := t\<rparr>) = outcome (attempt ok t ys) d"
  shows "then_do (outcome (attempt ok tr xs) d) f = outcome (attempt ok tr (xs @ ys)) d"
  using assms by (simp add: then_do_def outcome_def attempt_append)

lemma set_brightness_15: "set_brightness ok 15 d = outcome (attempt ok (trace d) [Write 0xEF]) d"
  by (simp add: set_brightness_def i2c_write_def bus_call_outcome CMD_BRIGHTNESS_def)

lemma set_blink_rate_off:
  "set_blink_rate ok BLINK_OFF d = outcome (attempt ok (trace d) [Write 0x81]) d"
  by (simp add: set_blink_rate_def i2c_write_def bus_call_outcome consts_defs)

lemma init_outcome:
  "init ok = outcome (attempt ok [] init_sequence)
               \<lparr>display_buffer = replicate 16 0, trace = []\<rparr>"
proof -
  let ?d = "\<lparr>display_buffer = replicate 16 0, trace = []\<rparr>"
  have zeros: "row_writes (replicate 16 0) = map (\<lambda>a. RegisterWriteU8 (int a) 0x00) [0..<16]"
    unfolding row_writes_def by (rule map_cong) simp_all
  have s4: "set_brightness ok 15 (?d\<lparr>trace := t\<rparr>) = outcome (attempt ok t [Write 0xEF]) ?d" for t
    by (simp add: set_brightness_15 outcome_def)
  have s3: "then_do (set_blink_rate ok BLINK_OFF (?d\<lparr>trace := t\<rparr>)) (set_brightness ok 15)
      = outcome (attempt ok t ([Write 0x81] @ [Write 0xEF])) ?d" for t
  proof -
    have "set_blink_rate ok BLINK_OFF (?d\<lparr>trace := t\<rparr>) = outcome (attempt ok t [Write 0x81]) ?d"
      by (simp add: set_blink_rate_off outcome_def)
    then show ?thesis using then_do_outcome [of "set_brightness ok 15" ?d ok "[Write 0xEF]" t "[Write 0x81]"] s4
      by simp
  qed
  have s2: "then_do (flush ok (?d\<lparr>trace := t\<rparr>))
        (\<lambda>d. then_do (set_blink_rate ok BLINK_OFF d) (set_brightness ok 15))
      = outcome (attempt ok t (row_writes (replicate 16 0) @ [Write 0x81] @ [Write 0xEF])) ?d" for t
  proof -
    have "flush ok (?d\<lparr>trace := t\<rparr>) = outcome (attempt ok t (row_writes (replicate 16 0))) ?d"
      by (simp add: flush_outcome outcome_def)
    then show ?thesis
      using then_do_outcome [of "\<lambda>d. then_do (set_blink_rate ok BLINK_OFF d) (set_brightness ok 15)"
          ?d ok "[Write 0x81] @ [Write 0xEF]" t "row_writes (replicate 16 0)"] s3
      by simp
  qed
  have s1: "i2c_write ok (CMD_SYSTEM_SETUP OR SYSTEM_OSCILLATOR_ON) ?d
      = outcome (attempt ok [] [Write 0x21]) ?d"
    by (simp add: i2c_write_def bus_call_outcome consts_defs)
  have "init ok = then_do (outcome (attempt ok [] [Write 0x21]) ?d)
      (\<lambda>d. then_do (flush ok d)
        (\<lambda>d. then_do (set_blink_rate ok BLINK_OFF d) (set_brightness ok 15)))"
    unfolding init_def Let_def s1 [symmetric] by (simp add: MEM_ROWS_def)
  also have "\<dots> = outcome (attempt ok []
      ([Write 0x21] @ row_writes (replicate 16 0) @ [Write 0x81] @ [Write 0xEF])) ?d"
    by (rule then_do_outcome) (rule s2)
  also have "[Write 0x21] @ row_writes (replicate 16 0) @ [Write 0x81] @ [Write 0xEF]
      = init_sequence"
    by (simp add: zeros init_sequence_def)
  finally show ?thesis .
qed

lemma length_row_writes: "length (row_writes buf) = 16"
  by (simp add: row_writes_def)

lemma length_init_sequence: "length init_sequence = 19"
  by (simp add: init_sequence_def)

text \<open>
  C2: flush and the bus. If every write succeeds, flush makes exactly the 16 register
  writes of \<open>row_writes\<close>: addresses 0 to 15 in ascending order, each with the row byte
  the buffer held at the call. If the write at position \<open>k\<close> is the first to fail, the
  trace ends with that write (no later address is attempted) and the transport error
  reaches the caller. In both cases the buffer is as it was.
\<close>

theorem flush_writes:
  assumes "wf_buffer (display_buffer d)"
  shows "((\<forall>k < 16. ok (trace d @ take k (row_writes (display_buffer d)))
                      (row_writes (display_buffer d) ! k)) \<longrightarrow>
            flush ok d = (Inr (), d\<lparr>trace := trace d @ row_writes (display_buffer d)\<rparr>)) \<and>
         (\<forall>k < 16.
            (\<forall>j < k. ok (trace d @ take j (row_writes (display_buffer d)))
                      (row_writes (display_buffer d) ! j)) \<and>
            \<not> ok (trace d @ take k (row_writes (display_buffer d)))
                 (row_writes (display_buffer d) ! k) \<longrightarrow>
            flush ok d = (Inl TransportError,
                          d\<lparr>trace := trace d @ take (Suc k) (row_writes (display_buffer d))\<rparr>))"
proof -
  let ?w = "row_writes (display_buffer d)"
  have len: "length (display_buffer d) = 16" using assms by (simp add: wf_buffer_def)
  have run: "flush ok d = outcome (attempt ok (trace d) ?w) d"
    by (rule flush_outcome [OF len])
  have good: "flush ok d = (Inr (), d\<lparr>trace := trace d @ ?w\<rparr>)"
    if "\<forall>k < 16. ok (trace d @ take k ?w) (?w ! k)"
  proof -
    have "attempt ok (trace d) ?w = (True, trace d @ ?w)"
      using that by (intro attempt_all_ok) (simp add: length_row_writes)
    then show ?thesis by (simp add: run outcome_def)
  qed
  have bad: "flush ok d = (Inl TransportError, d\<lparr>trace := trace d @ take (Suc k) ?w\<rparr>)"
    if "k < 16" "\<forall>j < k. ok (trace d @ take j ?w) (?w ! j)" "\<not> ok (trace d @ take k ?w) (?w ! k)"
    for k
  proof -
    have "k < length ?w" using that(1) by (simp add: length_row_writes)
    then have "attempt ok (trace d) ?w = (False, trace d @ take (Suc k) ?w)"
      using that(2,3) by (rule attempt_first_fail)
    then show ?thesis by (simp add: run outcome_def)
  qed
  show ?thesis using good bad by blast
qed

theorem flush_writes_witness:
  "flush (\<lambda>tr c. True) example_device
     = (Inr (), example_device\<lparr>trace :=
          [RegisterWriteU8 0 1, RegisterWriteU8 1 2, RegisterWriteU8 2 4, RegisterWriteU8 3 8,
           RegisterWriteU8 4 16, RegisterWriteU8 5 32, RegisterWriteU8 6 64,
           RegisterWriteU8 7 128, RegisterWriteU8 8 255, RegisterWriteU8 9 0,
           RegisterWriteU8 10 170, RegisterWriteU8 11 85, RegisterWriteU8 12 15,
           RegisterWriteU8 13 240, RegisterWriteU8 14 60, RegisterWriteU8 15 195]\<rparr>) \<and>
   flush (\<lambda>tr c. length tr \<noteq> 4) example_device
     = (Inl TransportError, example_device\<lparr>trace :=
          [RegisterWriteU8 0 1, RegisterWriteU8 1 2, RegisterWriteU8 2 4, RegisterWriteU8 3 8,
           RegisterWriteU8 4 16]\<rparr>)"
proof -
  let ?w = "row_writes (display_buffer example_device)"
  have wf: "wf_buffer (display_buffer example_device)"
    by (simp add: example_device_def wf_buffer_def)
  have w: "?w =
          [RegisterWriteU8 0 1, RegisterWriteU8 1 2, RegisterWriteU8 2 4, RegisterWriteU8 3 8,
           RegisterWriteU8 4 16, RegisterWriteU8 5 32, RegisterWriteU8 6 64,
           RegisterWriteU8 7 128, RegisterWriteU8 8 255, RegisterWriteU8 9 0,
           RegisterWriteU8 10 170, RegisterWriteU8 11 85, RegisterWriteU8 12 15,
           RegisterWriteU8 13 240, RegisterWriteU8 14 60, RegisterWriteU8 15 195]"
    by code_simp
  have tr: "trace example_device = []" by (simp add: example_device_def)
  have a: "flush (\<lambda>tr c. True) example_device
      = (Inr (), example_device\<lparr>trace := trace example_device @ ?w\<rparr>)"
    using flush_writes [OF wf, of "\<lambda>tr c. True", THEN conjunct1] by simp
  have b: "flush (\<lambda>tr c. length tr \<noteq> 4) example_device
      = (Inl TransportError, example_device\<lparr>trace := trace example_device @ take (Suc 4) ?w\<rparr>)"
    using flush_writes [OF wf, of "\<lambda>tr c. length tr \<noteq> 4", THEN conjunct2, rule_format, of 4]
    by (simp add: tr length_row_writes)
  show ?thesis using a b unfolding w tr by simp
qed

text \<open>
  C6: for a level from 0 to 15, \<^verbatim>\<open>set_brightness\<close> sends the one byte
  \<open>0xE0 OR level\<close>, which is \<open>0xE0 + level\<close> (so \<open>0xE0\<close> for 0 and \<open>0xEF\<close> for 15); for
  any other level the assertion fails, and the device is as it was: no bus call is made.
\<close>

theorem brightness_encoding:
  "(0 \<le> level \<and> level \<le> 15 \<longrightarrow>
      CMD_BRIGHTNESS OR level = 0xE0 + level \<and>
      set_brightness ok level d
        = (if ok (trace d) (Write (0xE0 OR level)) then Inr () else Inl TransportError,
           d\<lparr>trace := trace d @ [Write (0xE0 OR level)]\<rparr>)) \<and>
   (\<not> (0 \<le> level \<and> level \<le> 15) \<longrightarrow> set_brightness ok level d = (Inl AssertionError, d))"
proof -
  have "CMD_BRIGHTNESS OR level = 0xE0 + level" if "0 \<le> level \<and> level \<le> 15"
    using that or_brightness [of level] by (simp add: CMD_BRIGHTNESS_def)
  then show ?thesis
    by (simp add: set_brightness_def i2c_write_def bus_call_def CMD_BRIGHTNESS_def)
qed

theorem brightness_encoding_witness:
  "set_brightness (\<lambda>tr c. True) 0 example_device
     = (Inr (), example_device\<lparr>trace := [Write 0xE0]\<rparr>) \<and>
   set_brightness (\<lambda>tr c. True) 15 example_device
     = (Inr (), example_device\<lparr>trace := [Write 0xEF]\<rparr>) \<and>
   set_brightness (\<lambda>tr c. True) 16 example_device = (Inl AssertionError, example_device) \<and>
   set_brightness (\<lambda>tr c. True) (- 1) example_device = (Inl AssertionError, example_device)"
proof -
  have tr: "trace example_device = []" by (simp add: example_device_def)
  show ?thesis
    using brightness_encoding [of 0 "\<lambda>tr c. True" example_device]
      brightness_encoding [of 15 "\<lambda>tr c. True" example_device]
      brightness_encoding [of 16 "\<lambda>tr c. True" example_device]
      brightness_encoding [of "- 1" "\<lambda>tr c. True" example_device]
    by (simp add: tr)
qed

text \<open>
  C7: the four blink modes are 0, 1, 2 and 3. For each of them \<^verbatim>\<open>set_blink_rate\<close>
  sends the one byte \<open>0x80 OR 0x01 OR (mode << 1)\<close>, which is \<open>0x81 + 2 * mode\<close> and has
  the display-on bit \<open>0x01\<close> set; for any other value the assertion fails, and the
  device is as it was: no bus call is made.
\<close>

theorem blink_encoding:
  "[BLINK_OFF, BLINK_2HZ, BLINK_1HZ, BLINK_HALFHZ] = [0, 1, 2, 3] \<and>
   (mode \<in> {0, 1, 2, 3} \<longrightarrow>
      CMD_BLINK OR BLINK_DISPLAYON OR push_bit 1 mode = 0x81 + 2 * mode \<and>
      (0x80 OR 0x01 OR push_bit 1 mode) AND 0x01 = (0x01 :: int) \<and>
      set_blink_rate ok mode d
        = (if ok (trace d) (Write (0x80 OR 0x01 OR push_bit 1 mode))
           then Inr () else Inl TransportError,
           d\<lparr>trace := trace d @ [Write (0x80 OR 0x01 OR push_bit 1 mode)]\<rparr>)) \<and>
   (mode \<notin> {0, 1, 2, 3} \<longrightarrow> set_blink_rate ok mode d = (Inl AssertionError, d))"
proof -
  have enc: "(0x80::int) OR 0x01 OR push_bit 1 mode = 0x81 + 2 * mode"
    if "mode \<in> {0, 1, 2, 3}"
    using that by (elim insertE emptyE) simp_all
  have on: "(0x80 OR 0x01 OR push_bit 1 mode) AND 0x01 = (0x01 :: int)"
    if "mode \<in> {0, 1, 2, 3}"
    using that by (elim insertE emptyE) simp_all
  have run: "set_blink_rate ok mode d
        = (if ok (trace d) (Write (0x80 OR 0x01 OR push_bit 1 mode))
           then Inr () else Inl TransportError,
           d\<lparr>trace := trace d @ [Write (0x80 OR 0x01 OR push_bit 1 mode)]\<rparr>)"
    if "mode \<in> {0, 1, 2, 3}"
    using that by (simp add: set_blink_rate_def i2c_write_def bus_call_def consts_defs)
  have rej: "set_blink_rate ok mode d = (Inl AssertionError, d)" if "mode \<notin> {0, 1, 2, 3}"
    using that by (simp add: set_blink_rate_def consts_defs)
  have modes: "[BLINK_OFF, BLINK_2HZ, BLINK_1HZ, BLINK_HALFHZ] = [0, 1, 2, 3]"
    by (simp add: consts_defs)
  show ?thesis using enc on run rej modes by (simp add: consts_defs)
qed

theorem blink_encoding_witness:
  "set_blink_rate (\<lambda>tr c. True) BLINK_1HZ example_device
     = (Inr (), example_device\<lparr>trace := [Write 0x85]\<rparr>) \<and>
   set_blink_rate (\<lambda>tr c. True) 4 example_device = (Inl AssertionError, example_device)"
proof -
  have tr: "trace example_device = []" by (simp add: example_device_def)
  show ?thesis
    using blink_encoding [of 2 "\<lambda>tr c. True" example_device]
      blink_encoding [of 4 "\<lambda>tr c. True" example_device]
    by (simp add: tr BLINK_1HZ_def)
qed

text \<open>
  C9, as the code has it: construction. The buffer is zeroed first, then the bus calls of
  \<open>init_sequence\<close> are made in this order: system setup with the oscillator on
  (\<open>0x21\<close>), the register writes of the flush of the zeroed buffer, blink off
  (\<open>0x81\<close>), brightness 15 (\<open>0xEF\<close>). If every call succeeds, construction returns
  with exactly these 19 calls made. If the call at position \<open>k\<close> is the first to fail,
  it is the last call made, no later step runs, and construction raises the transport
  error of that call as it is: \<^verbatim>\<open>__init__\<close> has no handler that would turn it into
  an error of another kind.
\<close>

theorem init_sequence_runs:
  "((\<forall>k < 19. ok (take k init_sequence) (init_sequence ! k)) \<longrightarrow>
      init ok = (Inr (), \<lparr>display_buffer = replicate 16 0, trace = init_sequence\<rparr>)) \<and>
   (\<forall>k < 19.
      (\<forall>j < k. ok (take j init_sequence) (init_sequence ! j)) \<and>
      \<not> ok (take k init_sequence) (init_sequence ! k) \<longrightarrow>
      init ok = (Inl TransportError,
                 \<lparr>display_buffer = replicate 16 0, trace = take (Suc k) init_sequence\<rparr>))"
proof -
  let ?s = init_sequence
  have good: "init ok = (Inr (), \<lparr>display_buffer = replicate 16 0, trace = ?s\<rparr>)"
    if "\<forall>k < 19. ok (take k ?s) (?s ! k)"
  proof -
    have "attempt ok [] ?s = (True, [] @ ?s)"
      using that by (intro attempt_all_ok) (simp add: length_init_sequence)
    then show ?thesis by (simp add: init_outcome outcome_def)
  qed
  have bad: "init ok = (Inl TransportError,
                 \<lparr>display_buffer = replicate 16 0, trace = take (Suc k) ?s\<rparr>)"
    if "k < 19" "\<forall>j < k. ok (take j ?s) (?s ! j)" "\<not> ok (take k ?s) (?s ! k)" for k
  proof -
    have "k < length ?s" using that(1) by (simp add: length_init_sequence)
    then have "attempt ok [] ?s = (False, [] @ take (Suc k) ?s)"
      using that(2,3) by (intro attempt_first_fail) simp_all
    then show ?thesis by (simp add: init_outcome outcome_def)
  qed
  show ?thesis using good bad by blast
qed

theorem init_sequence_runs_witness:
  "init (\<lambda>tr c. True)
     = (Inr (), \<lparr>display_buffer = [0, 0, 0, 0, 0, 0, 0, 0, 0, 0, 0, 0, 0, 0, 0, 0],
          trace = [Write 0x21,
            RegisterWriteU8 0 0, RegisterWriteU8 1 0, RegisterWriteU8 2 0, RegisterWriteU8 3 0,
            RegisterWriteU8 4 0, RegisterWriteU8 5 0, RegisterWriteU8 6 0, RegisterWriteU8 7 0,
            RegisterWriteU8 8 0, RegisterWriteU8 9 0, RegisterWriteU8 10 0, RegisterWriteU8 11 0,
            RegisterWriteU8 12 0, RegisterWriteU8 13 0, RegisterWriteU8 14 0, RegisterWriteU8 15 0,
            Write 0x81, Write 0xEF]\<rparr>) \<and>
   init (\<lambda>tr c. length tr \<noteq> 2)
     = (Inl TransportError, \<lparr>display_buffer = [0, 0, 0, 0, 0, 0, 0, 0, 0, 0, 0, 0, 0, 0, 0, 0],
          trace = [Write 0x21, RegisterWriteU8 0 0, RegisterWriteU8 1 0]\<rparr>) \<and>
   init (\<lambda>tr c. c \<noteq> Write 0x81)
     = (Inl TransportError, \<lparr>display_buffer = [0, 0, 0, 0, 0, 0, 0, 0, 0, 0, 0, 0, 0, 0, 0, 0],
          trace = [Write 0x21,
            RegisterWriteU8 0 0, RegisterWriteU8 1 0, RegisterWriteU8 2 0, RegisterWriteU8 3 0,
            RegisterWriteU8 4 0, RegisterWriteU8 5 0, RegisterWriteU8 6 0, RegisterWriteU8 7 0,
            RegisterWriteU8 8 0, RegisterWriteU8 9 0, RegisterWriteU8 10 0, RegisterWriteU8 11 0,
            RegisterWriteU8 12 0, RegisterWriteU8 13 0, RegisterWriteU8 14 0, RegisterWriteU8 15 0,
            Write 0x81]\<rparr>)"
proof -
  have s: "init_sequence = [Write 0x21,
            RegisterWriteU8 0 0, RegisterWriteU8 1 0, RegisterWriteU8 2 0, RegisterWriteU8 3 0,
            RegisterWriteU8 4 0, RegisterWriteU8 5 0, RegisterWriteU8 6 0, RegisterWriteU8 7 0,
            RegisterWriteU8 8 0, RegisterWriteU8 9 0, RegisterWriteU8 10 0, RegisterWriteU8 11 0,
            RegisterWriteU8 12 0, RegisterWriteU8 13 0, RegisterWriteU8 14 0, RegisterWriteU8 15 0,
            Write 0x81, Write 0xEF]"
    by code_simp
  have z: "replicate 16 (0::int) = [0, 0, 0, 0, 0, 0, 0, 0, 0, 0, 0, 0, 0, 0, 0, 0]"
    by code_simp
  have a: "init (\<lambda>tr c. True)
      = (Inr (), \<lparr>display_buffer = replicate 16 0, trace = init_sequence\<rparr>)"
    using init_sequence_runs [of "\<lambda>tr c. True", THEN conjunct1] by simp
  have b: "init (\<lambda>tr c. length tr \<noteq> 2)
      = (Inl TransportError,
         \<lparr>display_buffer = replicate 16 0, trace = take (Suc 2) init_sequence\<rparr>)"
    using init_sequence_runs [of "\<lambda>tr c. length tr \<noteq> 2", THEN conjunct2, rule_format, of 2]
    by (simp add: length_init_sequence)
  have before: "\<forall>j < 17. init_sequence ! j \<noteq> Write 0x81"
    by (auto simp: init_sequence_def nth_Cons' nth_append)
  have at: "init_sequence ! 17 = Write 0x81" unfolding s by simp
  have c: "init (\<lambda>tr c. c \<noteq> Write 0x81)
      = (Inl TransportError,
         \<lparr>display_buffer = replicate 16 0, trace = take (Suc 17) init_sequence\<rparr>)"
    using init_sequence_runs [of "\<lambda>tr c. c \<noteq> Write 0x81", THEN conjunct2, rule_format, of 17]
      before at
    by simp
  show ?thesis using a b c unfolding s z by simp
qed

text \<open>
  C9 as stated says that a failed construction surfaces an initialisation error, a kind
  apart from the transport error of a failed flush. On a bus where every call fails,
  construction stops at its first call and raises the transport error itself, the same
  error a flush raises on that bus.
\<close>

theorem init_error_counterexample:
  "init dead_bus
     = (Inl TransportError, \<lparr>display_buffer = replicate 16 0, trace = [Write 0x21]\<rparr>) \<and>
   fst (init dead_bus)
     = fst (flush dead_bus \<lparr>display_buffer = replicate 16 0, trace = []\<rparr>) \<and>
   fst (init dead_bus) \<noteq> Inl InitializationError"
proof -
  have a: "init dead_bus
      = (Inl TransportError, \<lparr>display_buffer = replicate 16 0, trace = [Write 0x21]\<rparr>)"
    by (simp add: init_def then_do_def i2c_write_def bus_call_def dead_bus_def consts_defs)
  have "enumerate_py (replicate 16 (0::int)) \<noteq> []"
    by (simp add: enumerate_py_def)
  then obtain a0 v0 rest where e: "enumerate_py (replicate 16 (0::int)) = (a0, v0) # rest"
    by (cases "enumerate_py (replicate 16 (0::int))") auto
  have b: "fst (flush dead_bus \<lparr>display_buffer = replicate 16 0, trace = []\<rparr>)
      = Inl TransportError"
    by (simp add: flush_def e register_write_u8_def bus_call_def dead_bus_def)
  show ?thesis using a b by simp
qed

end
